theory Spec2Isabelle
  imports Main "HOL-Library.Multiset"
begin

section \<open>Questions and the catalog\<close>

text \<open>
  A question is a JSON object of \<^verbatim>\<open>questions.json\<close>. The keys \<^verbatim>\<open>question\<close>,
  \<^verbatim>\<open>options\<close> and \<^verbatim>\<open>correct_answer\<close> are read with \<^verbatim>\<open>q[...]\<close> and are therefore
  fields that are always there; \<^verbatim>\<open>explanation\<close> and \<^verbatim>\<open>difficulty\<close> are read with
  \<^verbatim>\<open>q.get\<close> and may be absent. A present \<^verbatim>\<open>difficulty\<close> is taken to be an integer.
\<close>

record question =
  question_text :: string
  options :: "string list"
  correct_answer :: string
  explanation :: "string option"
  difficulty :: "int option"

text \<open>
  The code compares questions by \<^verbatim>\<open>id(q)\<close>: a loaded question is an object, that is
  its identity together with its contents. \<^verbatim>\<open>json.load\<close> makes one fresh dict for each
  element of the list in the file, so the identity is the position in that list.
\<close>

type_synonym obj_id = nat
type_synonym qobj = "obj_id \<times> question"

definition load_questions :: "question list option \<Rightarrow> qobj list" where
  \<comment> \<open>\<open>None\<close>: \<^verbatim>\<open>questions.json\<close> does not exist.\<close>
  "load_questions file =
     (case file of
        Some records \<Rightarrow> zip [0..<length records] records
      | None \<Rightarrow> [])"

definition get_difficulty :: "qobj \<Rightarrow> int" where
  \<comment> \<open>\<^verbatim>\<open>q.get('difficulty', 3)\<close>\<close>
  "get_difficulty q = (case difficulty (snd q) of Some d \<Rightarrow> d | None \<Rightarrow> 3)"

datatype py_error = KeyError | IndexError


section \<open>The random module\<close>

text \<open>
  The generator of Python's \<^verbatim>\<open>random\<close> module is global state. Its entropy is an
  arbitrary sequence of naturals and a count of the draws made so far;
  \<^verbatim>\<open>randbelow(n)\<close> is the next element reduced below \<open>n\<close>, so that every outcome of
  the real generator is the outcome of some sequence.
\<close>

record rng =
  source :: "nat \<Rightarrow> nat"
  draws :: nat

definition randbelow :: "nat \<Rightarrow> rng \<Rightarrow> nat \<times> rng" where
  "randbelow n g = (source g (draws g) mod n, g\<lparr>draws := draws g + 1\<rparr>)"

definition swap :: "nat \<Rightarrow> nat \<Rightarrow> 'a list \<Rightarrow> 'a list" where
  \<comment> \<open>\<^verbatim>\<open>x[i], x[j] = x[j], x[i]\<close>\<close>
  "swap i j x = x[i := x ! j, j := x ! i]"

text \<open>
  \<^verbatim>\<open>random.shuffle(x)\<close>:
  \<^verbatim>\<open>for i in reversed(range(1, len(x))): j = randbelow(i + 1); x[i], x[j] = x[j], x[i]\<close>.
  The loop counter \<open>i\<close> runs from \<open>len(x) - 1\<close> down to \<open>1\<close>.
\<close>

primrec shuffle_loop :: "nat \<Rightarrow> 'a list \<Rightarrow> rng \<Rightarrow> 'a list \<times> rng" where
  "shuffle_loop 0 x g = (x, g)"
| "shuffle_loop (Suc k) x g =
     (let (j, g') = randbelow (Suc k + 1) g
      in shuffle_loop k (swap (Suc k) j x) g')"

definition shuffle :: "'a list \<Rightarrow> rng \<Rightarrow> 'a list \<times> rng" where
  "shuffle x g = shuffle_loop (length x - 1) x g"


section \<open>The plan builders\<close>

type_synonym groups = "int \<rightharpoonup> qobj list"

definition levels :: "int list" where
  \<comment> \<open>\<^verbatim>\<open>range(1, 6)\<close>\<close>
  "levels = [1, 2, 3, 4, 5]"

definition empty_groups :: groups where
  \<comment> \<open>\<^verbatim>\<open>{lvl: [] for lvl in range(1, 6)}\<close>\<close>
  "empty_groups = map_of (map (\<lambda>lvl. (lvl, [])) levels)"

definition add_to_group :: "qobj \<Rightarrow> groups \<Rightarrow> groups" where
  \<comment> \<open>\<^verbatim>\<open>lvl = q.get('difficulty', 3); if lvl in groups: groups[lvl].append(q)\<close>\<close>
  "add_to_group q groups =
     (let lvl = get_difficulty q
      in case groups lvl of
           Some pool \<Rightarrow> groups(lvl \<mapsto> pool @ [q])
         | None \<Rightarrow> groups)"

definition group_questions :: "qobj list \<Rightarrow> groups" where
  "group_questions questions = fold add_to_group questions empty_groups"

text \<open>The first pass: up to two questions of each level, appended to the plan.\<close>

fun first_pass :: "groups \<Rightarrow> int list \<Rightarrow> qobj list \<Rightarrow> rng \<Rightarrow> py_error + (qobj list \<times> rng)" where
  "first_pass groups [] plan g = Inr (plan, g)"
| "first_pass groups (lvl # lvls) plan g =
     (case groups lvl of
        None \<Rightarrow> Inl KeyError
      | Some pool0 \<Rightarrow>
          (let (pool, g') = shuffle pool0 g;
               take_n = min 2 (length pool)
           in first_pass groups lvls (plan @ take take_n pool) g'))"

text \<open>The second loop over the levels: every pool, shuffled, appended to \<^verbatim>\<open>remaining\<close>.\<close>

fun collect_remaining :: "groups \<Rightarrow> int list \<Rightarrow> qobj list \<Rightarrow> rng \<Rightarrow> py_error + (qobj list \<times> rng)" where
  "collect_remaining groups [] remaining g = Inr (remaining, g)"
| "collect_remaining groups (lvl # lvls) remaining g =
     (case groups lvl of
        None \<Rightarrow> Inl KeyError
      | Some pool0 \<Rightarrow>
          (let (pool, g') = shuffle pool0 g
           in collect_remaining groups lvls (remaining @ pool) g'))"

definition fill_remaining :: "groups \<Rightarrow> qobj list \<Rightarrow> rng \<Rightarrow> py_error + (qobj list \<times> rng)" where
  \<comment> \<open>the body of \<^verbatim>\<open>if len(plan) < 10:\<close>\<close>
  "fill_remaining groups plan g =
     (case collect_remaining groups levels [] g of
        Inl e \<Rightarrow> Inl e
      | Inr (remaining, g1) \<Rightarrow>
          (let selected_ids = set (map fst plan);
               remaining' = filter (\<lambda>q. fst q \<notin> selected_ids) remaining;
               (remaining'', g2) = shuffle remaining' g1;
               need = 10 - length plan
           in Inr (plan @ take need remaining'', g2)))"

definition build_all_levels_plan :: "qobj list \<Rightarrow> rng \<Rightarrow> py_error + (qobj list \<times> rng)" where
  "build_all_levels_plan questions g =
     (let groups = group_questions questions
      in case first_pass groups levels [] g of
           Inl e \<Rightarrow> Inl e
         | Inr (plan, g1) \<Rightarrow>
             (case (if length plan < 10 then fill_remaining groups plan g1 else Inr (plan, g1)) of
                Inl e \<Rightarrow> Inl e
              | Inr (plan', g2) \<Rightarrow>
                  (let (final, g3) = shuffle plan' g2
                   in Inr (take 10 final, g3))))"

definition build_single_level_plan :: "qobj list \<Rightarrow> int \<Rightarrow> rng \<Rightarrow> qobj list \<times> rng" where
  "build_single_level_plan questions level g =
     (let pool = filter (\<lambda>q. get_difficulty q = level) questions;
          (pool', g') = shuffle pool g
      in (take 10 pool', g'))"


section \<open>The session state\<close>

type_synonym user_id = int

datatype selector = AllLevels | Level int
  \<comment> \<open>a value of \<^verbatim>\<open>user_difficulty\<close>: the string for "all levels", or an integer\<close>

text \<open>
  The module's dictionaries, all keyed by the user's id, the \<^verbatim>\<open>current_question\<close> entry
  of each user's \<^verbatim>\<open>context.user_data\<close>, and the generator of the \<^verbatim>\<open>random\<close> module.
\<close>

record bot_state =
  user_scores :: "user_id \<rightharpoonup> int"
  user_difficulty :: "user_id \<rightharpoonup> selector"
  user_question_list :: "user_id \<rightharpoonup> qobj list"
  user_question_index :: "user_id \<rightharpoonup> nat"
  current_question :: "user_id \<rightharpoonup> qobj"
  random_state :: rng

definition initial_state :: "rng \<Rightarrow> bot_state" where
  "initial_state g =
     \<lparr>user_scores = Map.empty, user_difficulty = Map.empty, user_question_list = Map.empty,
      user_question_index = Map.empty, current_question = Map.empty, random_state = g\<rparr>"

datatype conv_state = QUESTION | ANSWER | DIFFICULTY | END

text \<open>The texts the handlers send, by the values that are formatted into them.\<close>

datatype message =
    QuestionsNotLoaded
  | NoQuestionsAvailable
  | NoQuestionsForLevel int
  | QuestionPresented nat nat qobj  \<comment> \<open>\<^verbatim>\<open>idx + 1\<close>, \<^verbatim>\<open>len(plan)\<close>, the question\<close>
  | PleaseRestart
  | Correct string int  \<comment> \<open>explanation, current score\<close>
  | Incorrect string string int  \<comment> \<open>correct answer, explanation, current score\<close>
  | QuizCompleted int nat  \<comment> \<open>final score, total\<close>
  | DifficultySet selector
  | Cancelled

text \<open>
  What a handler does: the messages it sends, the value it returns (or the exception it
  raises), and the state it leaves behind.
\<close>

record reply =
  sent :: "message list"
  returned :: "py_error + conv_state"
  after :: bot_state

definition get_score :: "bot_state \<Rightarrow> user_id \<Rightarrow> int" where
  \<comment> \<open>\<^verbatim>\<open>user_scores.get(user_id, 0)\<close>\<close>
  "get_score s uid = (case user_scores s uid of Some v \<Rightarrow> v | None \<Rightarrow> 0)"

definition get_index :: "bot_state \<Rightarrow> user_id \<Rightarrow> nat" where
  \<comment> \<open>\<^verbatim>\<open>user_question_index.get(user_id, 0)\<close>\<close>
  "get_index s uid = (case user_question_index s uid of Some i \<Rightarrow> i | None \<Rightarrow> 0)"

definition get_plan :: "bot_state \<Rightarrow> user_id \<Rightarrow> qobj list" where
  \<comment> \<open>\<^verbatim>\<open>user_question_list.get(user_id, [])\<close>\<close>
  "get_plan s uid = (case user_question_list s uid of Some p \<Rightarrow> p | None \<Rightarrow> [])"

definition get_explanation :: "qobj \<Rightarrow> string" where
  \<comment> \<open>\<^verbatim>\<open>question.get('explanation', '')\<close>\<close>
  "get_explanation q = (case explanation (snd q) of Some e \<Rightarrow> e | None \<Rightarrow> [])"


section \<open>The handlers\<close>

definition no_active_plan :: "qobj list option \<Rightarrow> nat \<Rightarrow> bool" where
  \<comment> \<open>\<^verbatim>\<open>not plan or idx >= len(plan)\<close>\<close>
  "no_active_plan plan idx =
     (case plan of None \<Rightarrow> True | Some p \<Rightarrow> p = [] \<or> length p \<le> idx)"

text \<open>
  The choice of the builder in \<^verbatim>\<open>quiz\<close>:
  \<^verbatim>\<open>if difficulty == "..." : plan = _build_all_levels_plan() else: plan = _build_single_level_plan(difficulty)\<close>.
\<close>

definition build_plan :: "qobj list \<Rightarrow> selector \<Rightarrow> rng \<Rightarrow> py_error + (qobj list \<times> rng)" where
  "build_plan questions chosen g =
     (case chosen of
        AllLevels \<Rightarrow> build_all_levels_plan questions g
      | Level d \<Rightarrow> Inr (build_single_level_plan questions d g))"

definition no_questions_message :: "selector \<Rightarrow> message" where
  "no_questions_message chosen =
     (case chosen of AllLevels \<Rightarrow> NoQuestionsAvailable | Level d \<Rightarrow> NoQuestionsForLevel d)"

text \<open>
  The body of \<^verbatim>\<open>if not plan or idx >= len(plan):\<close> in \<^verbatim>\<open>quiz\<close>. It either leaves the
  handler (\<open>Inl\<close>, with the reply), or goes on with the new plan.
\<close>

definition new_session :: "qobj list \<Rightarrow> user_id \<Rightarrow> bot_state \<Rightarrow> reply + (qobj list \<times> bot_state)" where
  "new_session questions uid s =
     (let s1 = s\<lparr>user_scores := (user_scores s)(uid \<mapsto> 0)\<rparr>
      in case user_difficulty s1 uid of
           None \<Rightarrow> Inl \<lparr>sent = [], returned = Inl KeyError, after = s1\<rparr>
         | Some chosen \<Rightarrow>
             (case build_plan questions chosen (random_state s1) of
                Inl e \<Rightarrow> Inl \<lparr>sent = [], returned = Inl e, after = s1\<rparr>
              | Inr (plan, g') \<Rightarrow>
                  (let s2 = s1\<lparr>random_state := g'\<rparr>
                   in if plan = [] then
                        Inl \<lparr>sent = [no_questions_message chosen],
                             returned = Inr END, after = s2\<rparr>
                      else
                        Inr (plan,
                             s2\<lparr>user_question_list := (user_question_list s2)(uid \<mapsto> plan),
                                user_question_index := (user_question_index s2)(uid \<mapsto> 0)\<rparr>))))"

text \<open>From \<^verbatim>\<open># Fetch next question in the plan\<close> to the end of \<^verbatim>\<open>quiz\<close>.\<close>

definition present_question :: "qobj list \<Rightarrow> nat \<Rightarrow> user_id \<Rightarrow> bot_state \<Rightarrow> reply" where
  "present_question plan idx uid s =
     (if idx < length plan then
        (let question = plan ! idx;
             s1 = s\<lparr>current_question := (current_question s)(uid \<mapsto> question)\<rparr>
         in \<lparr>sent = [QuestionPresented (idx + 1) (length plan) question],
             returned = Inr QUESTION, after = s1\<rparr>)
      else \<lparr>sent = [], returned = Inl IndexError, after = s\<rparr>)"

text \<open>The first two \<^verbatim>\<open>if\<close>s of \<^verbatim>\<open>quiz\<close>: a new user gets the score 0 and all levels.\<close>

definition init_user :: "user_id \<Rightarrow> bot_state \<Rightarrow> bot_state" where
  "init_user uid s =
     (let s1 = (if uid \<in> dom (user_scores s) then s
                else s\<lparr>user_scores := (user_scores s)(uid \<mapsto> 0)\<rparr>)
      in (if uid \<in> dom (user_difficulty s1) then s1
          else s1\<lparr>user_difficulty := (user_difficulty s1)(uid \<mapsto> AllLevels)\<rparr>))"

definition quiz :: "qobj list \<Rightarrow> user_id \<Rightarrow> bot_state \<Rightarrow> reply" where
  "quiz questions uid s =
     (let s2 = init_user uid s
      in if questions = [] then
           \<lparr>sent = [QuestionsNotLoaded], returned = Inr END, after = s2\<rparr>
         else
           (let plan = user_question_list s2 uid;
                idx = get_index s2 uid
            in if no_active_plan plan idx then
                 (case new_session questions uid s2 of
                    Inl r \<Rightarrow> r
                  | Inr (plan', s3) \<Rightarrow> present_question plan' 0 uid s3)
               else
                 present_question (case plan of Some p \<Rightarrow> p | None \<Rightarrow> []) idx uid s2))"

text \<open>
  The answer check of \<^verbatim>\<open>handle_answer\<close>. The branch of a wrong answer reads
  \<^verbatim>\<open>user_scores[user_id]\<close> while it formats its message, which raises for a user
  without a score, before anything is sent.
\<close>

definition check_answer :: "qobj \<Rightarrow> string \<Rightarrow> user_id \<Rightarrow> bot_state \<Rightarrow> py_error + (message \<times> bot_state)" where
  "check_answer question user_answer uid s =
     (if user_answer = correct_answer (snd question) then
        (let s1 = s\<lparr>user_scores := (user_scores s)(uid \<mapsto> get_score s uid + 1)\<rparr>
         in Inr (Correct (get_explanation question) (get_score s1 uid), s1))
      else
        (case user_scores s uid of
           None \<Rightarrow> Inl KeyError
         | Some v \<Rightarrow> Inr (Incorrect (correct_answer (snd question)) (get_explanation question) v, s)))"

text \<open>The \<^verbatim>\<open>try\<close> block of \<^verbatim>\<open>handle_answer\<close>; \<open>first\<close> is the message already sent.\<close>

definition advance :: "message \<Rightarrow> user_id \<Rightarrow> bot_state \<Rightarrow> reply" where
  "advance first uid s =
     (let s1 = s\<lparr>user_question_index := (user_question_index s)(uid \<mapsto> get_index s uid + 1)\<rparr>;
          idx = get_index s1 uid;
          plan = get_plan s1 uid
      in if length plan \<le> idx then
           (let final_score = get_score s1 uid;
                total = (if plan \<noteq> [] then length plan else 10)
            in \<lparr>sent = [first, QuizCompleted final_score total], returned = Inr END,
                after = s1\<lparr>user_question_list := (user_question_list s1)(uid \<mapsto> []),
                           user_question_index := (user_question_index s1)(uid \<mapsto> 0)\<rparr>\<rparr>)
         else \<lparr>sent = [first], returned = Inr END, after = s1\<rparr>)"

definition handle_answer :: "user_id \<Rightarrow> string \<Rightarrow> bot_state \<Rightarrow> reply" where
  "handle_answer uid user_answer s =
     (case current_question s uid of
        None \<Rightarrow> \<lparr>sent = [PleaseRestart], returned = Inr END, after = s\<rparr>
      | Some question \<Rightarrow>
          (case check_answer question user_answer uid s of
             Inl e \<Rightarrow> \<lparr>sent = [], returned = Inl e, after = s\<rparr>
           | Inr (first, s1) \<Rightarrow> advance first uid s1))"

definition handle_difficulty :: "user_id \<Rightarrow> int \<Rightarrow> bot_state \<Rightarrow> reply" where
  \<comment> \<open>the integer is \<^verbatim>\<open>int(query.data)\<close>\<close>
  "handle_difficulty uid chosen s =
     (let sel = (if chosen = 0 then AllLevels else Level chosen)
      in \<lparr>sent = [DifficultySet sel], returned = Inr END,
          after = s\<lparr>user_difficulty := (user_difficulty s)(uid \<mapsto> sel)\<rparr>\<rparr>)"

definition cancel :: "user_id \<Rightarrow> bot_state \<Rightarrow> reply" where
  "cancel uid s = \<lparr>sent = [Cancelled], returned = Inr END, after = s\<rparr>"


section \<open>Auxiliary notions and sample data\<close>

text \<open>The questions of one level, in catalog order: the pool \<^verbatim>\<open>groups[lvl]\<close>.\<close>

abbreviation pool_of :: "qobj list \<Rightarrow> int \<Rightarrow> qobj list" where
  "pool_of qs lvl \<equiv> filter (\<lambda>q. get_difficulty q = lvl) qs"

abbreviation in_levels :: "qobj \<Rightarrow> bool" where
  "in_levels q \<equiv> get_difficulty q \<in> set levels"

text \<open>What the first pass takes from one pool.\<close>

definition two_of :: "qobj list \<Rightarrow> qobj list \<Rightarrow> bool" where
  "two_of pool s \<longleftrightarrow>
     set s \<subseteq> set pool \<and> (distinct pool \<longrightarrow> distinct s) \<and> length s = min 2 (length pool)"

text \<open>A question, three files of questions and a generator, for concrete runs.\<close>

definition sample_question :: "int option \<Rightarrow> question" where
  "sample_question d =
     \<lparr>question_text = ''Who is the White Wolf?'', options = [''Geralt'', ''Jaskier''],
      correct_answer = ''Geralt'', explanation = None, difficulty = d\<rparr>"

definition sample_rng :: rng where
  "sample_rng = \<lparr>source = (\<lambda>i. i), draws = 0\<rparr>"

definition full_file :: "question list option" where
  "full_file = Some (map (\<lambda>d. sample_question (Some d)) [1, 1, 2, 2, 3, 3, 4, 4, 5, 5])"

definition small_file :: "question list option" where
  "small_file = Some [sample_question (Some 1), sample_question None, sample_question (Some 5)]"

definition odd_file :: "question list option" where
  "odd_file = Some [sample_question (Some 1), sample_question (Some 7), sample_question (Some 0)]"


text \<open>
  Runs of user 7 from the initial state: after the first \<^verbatim>\<open>/quiz\<close>; after the right answer
  to the only question of a catalog of one; and after choosing level 4 then.
\<close>

definition one_file :: "question list option" where
  "one_file = Some [sample_question (Some 1)]"

definition two_file :: "question list option" where
  "two_file = Some [sample_question (Some 1), sample_question (Some 2)]"

definition started :: "question list option \<Rightarrow> bot_state" where
  "started file = after (quiz (load_questions file) 7 (initial_state sample_rng))"

definition finished :: bot_state where
  "finished = after (handle_answer 7 ''Geralt'' (started one_file))"

definition finished_level4 :: bot_state where
  "finished_level4 = after (handle_difficulty 7 4 finished)"


section \<open>Shuffling and grouping\<close>


lemma mset_swap_list: "i < length x \<Longrightarrow> j < length x \<Longrightarrow> mset (swap i j x) = mset x"
  unfolding swap_def by (rule mset_swap)

lemma mset_shuffle_loop: "k < length x \<Longrightarrow> mset (fst (shuffle_loop k x g)) = mset x"
proof (induction k arbitrary: x g)
  case 0
  show ?case by simp
next
  case (Suc k)
  obtain j g' where r: "randbelow (Suc k + 1) g = (j, g')" by (cases "randbelow (Suc k + 1) g")
  then have "j < Suc k + 1" by (auto simp: randbelow_def)
  with Suc.prems have j: "j < length x" by simp
  have len: "length (swap (Suc k) j x) = length x" by (simp add: swap_def)
  have "mset (fst (shuffle_loop k (swap (Suc k) j x) g')) = mset (swap (Suc k) j x)"
    using Suc.prems by (intro Suc.IH) (simp add: len)
  also have "\<dots> = mset x" using Suc.prems j by (rule mset_swap_list)
  finally show ?case using r by simp
qed

lemma mset_shuffle: "mset (fst (shuffle x g)) = mset x"
proof (cases x)
  case Nil
  then show ?thesis by (simp add: shuffle_def)
next
  case (Cons a as)
  then show ?thesis unfolding shuffle_def by (intro mset_shuffle_loop) simp
qed

lemma add_to_group_lookup:
  "add_to_group q gr lvl =
     (case gr lvl of None \<Rightarrow> None
      | Some pool \<Rightarrow> Some (if get_difficulty q = lvl then pool @ [q] else pool))"
  by (auto simp: add_to_group_def Let_def split: option.split)

lemma fold_add_to_group:
  "fold add_to_group qs gr lvl =
     (case gr lvl of None \<Rightarrow> None
      | Some pool \<Rightarrow> Some (pool @ filter (\<lambda>q. get_difficulty q = lvl) qs))"
proof (induction qs arbitrary: gr)
  case Nil
  show ?case by (simp split: option.split)
next
  case (Cons q qs)
  have "fold add_to_group (q # qs) gr lvl = fold add_to_group qs (add_to_group q gr) lvl"
    by simp
  also have "\<dots> = (case add_to_group q gr lvl of None \<Rightarrow> None
      | Some pool \<Rightarrow> Some (pool @ filter (\<lambda>q. get_difficulty q = lvl) qs))"
    by (rule Cons.IH)
  also have "\<dots> = (case gr lvl of None \<Rightarrow> None
      | Some pool \<Rightarrow> Some (pool @ filter (\<lambda>q. get_difficulty q = lvl) (q # qs)))"
    by (simp add: add_to_group_lookup split: option.split)
  finally show ?case .
qed

lemma empty_groups_lookup:
  "empty_groups lvl = (if lvl \<in> set levels then Some [] else None)"
  by (simp add: empty_groups_def levels_def)

lemma group_questions_lookup:
  "group_questions qs lvl =
     (if lvl \<in> set levels then Some (filter (\<lambda>q. get_difficulty q = lvl) qs) else None)"
  by (simp add: group_questions_def fold_add_to_group empty_groups_lookup)


lemma length_shuffle: "length (fst (shuffle x g)) = length x"
  using mset_shuffle [of x g] by (rule mset_eq_length)

lemma set_shuffle: "set (fst (shuffle x g)) = set x"
  using mset_shuffle [of x g] by (rule mset_eq_setD)

lemma distinct_shuffle: "distinct (fst (shuffle x g)) = distinct x"
  using mset_shuffle [of x g] by (rule mset_eq_imp_distinct_iff)

lemma first_pass_spec:
  assumes "\<forall>l\<in>set lvls. gr l = Some (G l)"
  shows "\<exists>ss g'. first_pass gr lvls plan g = Inr (plan @ concat ss, g') \<and>
           list_all2 (\<lambda>l s. two_of (G l) s) lvls ss"
  using assms
proof (induction lvls arbitrary: plan g)
  case Nil
  show ?case by simp
next
  case (Cons l lvls)
  obtain pool g1 where sh: "shuffle (G l) g = (pool, g1)" by (cases "shuffle (G l) g")
  define s where "s = take (min 2 (length pool)) pool"
  have pool: "pool = fst (shuffle (G l) g)" using sh by simp
  have two: "two_of (G l) s"
    unfolding two_of_def s_def pool
    using set_take_subset [of "min 2 (length (G l))" "fst (shuffle (G l) g)"]
    by (simp add: length_shuffle set_shuffle distinct_shuffle)
  from Cons.prems have rest: "\<forall>l\<in>set lvls. gr l = Some (G l)" by simp
  from Cons.IH [OF rest, of "plan @ s" g1]
  obtain ss g' where ih: "first_pass gr lvls (plan @ s) g1 = Inr ((plan @ s) @ concat ss, g')"
    and all: "list_all2 (\<lambda>l s. two_of (G l) s) lvls ss" by blast
  have "first_pass gr (l # lvls) plan g = Inr (plan @ concat (s # ss), g')"
    using Cons.prems sh ih by (simp add: s_def)
  moreover have "list_all2 (\<lambda>l s. two_of (G l) s) (l # lvls) (s # ss)"
    using two all by simp
  ultimately show ?case by blast
qed

lemma collect_remaining_spec:
  assumes "\<forall>l\<in>set lvls. gr l = Some (G l)"
  shows "\<exists>rem g'. collect_remaining gr lvls acc g = Inr (acc @ rem, g') \<and>
           mset rem = mset (concat (map G lvls))"
  using assms
proof (induction lvls arbitrary: acc g)
  case Nil
  show ?case by simp
next
  case (Cons l lvls)
  obtain pool g1 where sh: "shuffle (G l) g = (pool, g1)" by (cases "shuffle (G l) g")
  have pool: "mset pool = mset (G l)" using mset_shuffle [of "G l" g] sh by simp
  from Cons.prems have rest: "\<forall>l\<in>set lvls. gr l = Some (G l)" by simp
  from Cons.IH [OF rest, of "acc @ pool" g1]
  obtain rem g' where ih: "collect_remaining gr lvls (acc @ pool) g1 = Inr ((acc @ pool) @ rem, g')"
    and m: "mset rem = mset (concat (map G lvls))" by blast
  have "collect_remaining gr (l # lvls) acc g = Inr (acc @ (pool @ rem), g')"
    using Cons.prems sh ih by simp
  moreover have "mset (pool @ rem) = mset (concat (map G (l # lvls)))"
    using pool m by simp
  ultimately show ?case by blast
qed

lemma mset_pools: "mset (concat (map (pool_of qs) levels)) = mset (filter in_levels qs)"
  by (induction qs) (auto simp: levels_def)

lemma first_pass_levels:
  obtains s1 s2 s3 s4 s5 g' where
    "first_pass (group_questions qs) levels [] g = Inr (s1 @ s2 @ s3 @ s4 @ s5, g')"
    "two_of (pool_of qs 1) s1" "two_of (pool_of qs 2) s2" "two_of (pool_of qs 3) s3"
    "two_of (pool_of qs 4) s4" "two_of (pool_of qs 5) s5"
proof -
  have "\<forall>l\<in>set levels. group_questions qs l = Some (pool_of qs l)"
    by (simp add: group_questions_lookup)
  from first_pass_spec [OF this, of "[]" g]
  obtain ss g' where r: "first_pass (group_questions qs) levels [] g = Inr (concat ss, g')"
    and all: "list_all2 (\<lambda>l s. two_of (pool_of qs l) s) levels ss" by auto
  from all obtain s1 s2 s3 s4 s5 where "ss = [s1, s2, s3, s4, s5]"
    "two_of (pool_of qs 1) s1" "two_of (pool_of qs 2) s2" "two_of (pool_of qs 3) s3"
    "two_of (pool_of qs 4) s4" "two_of (pool_of qs 5) s5"
    by (auto simp: levels_def list_all2_Cons1)
  with r that show ?thesis by simp
qed





lemma filter_level_sub:
  "set s \<subseteq> set (pool_of qs l) \<Longrightarrow>
     filter (\<lambda>q. get_difficulty q = t) s = (if t = l then s else [])"
  by (auto simp: filter_empty_conv filter_id_conv)

lemma first_pass_props:
  assumes "distinct qs"
  obtains plan1 g1 where
    "first_pass (group_questions qs) levels [] g = Inr (plan1, g1)"
    "distinct plan1"
    "set plan1 \<subseteq> set (filter in_levels qs)"
    "length plan1 = (\<Sum>l\<leftarrow>levels. min 2 (length (pool_of qs l)))"
    "\<And>t. t \<in> set levels \<Longrightarrow>
       length (filter (\<lambda>q. get_difficulty q = t) plan1) = min 2 (length (pool_of qs t))"
proof -
  obtain s1 s2 s3 s4 s5 g1 where
    r: "first_pass (group_questions qs) levels [] g = Inr (s1 @ s2 @ s3 @ s4 @ s5, g1)"
    and t: "two_of (pool_of qs 1) s1" "two_of (pool_of qs 2) s2" "two_of (pool_of qs 3) s3"
      "two_of (pool_of qs 4) s4" "two_of (pool_of qs 5) s5"
    by (rule first_pass_levels)
  from t have sub: "set s1 \<subseteq> set (pool_of qs 1)" "set s2 \<subseteq> set (pool_of qs 2)"
    "set s3 \<subseteq> set (pool_of qs 3)" "set s4 \<subseteq> set (pool_of qs 4)" "set s5 \<subseteq> set (pool_of qs 5)"
    by (simp_all add: two_of_def)
  from t assms have dist: "distinct s1" "distinct s2" "distinct s3" "distinct s4" "distinct s5"
    by (simp_all add: two_of_def)
  from t have len: "length s1 = min 2 (length (pool_of qs 1))"
    "length s2 = min 2 (length (pool_of qs 2))" "length s3 = min 2 (length (pool_of qs 3))"
    "length s4 = min 2 (length (pool_of qs 4))" "length s5 = min 2 (length (pool_of qs 5))"
    by (simp_all add: two_of_def)
  have lev: "\<And>q. q \<in> set s1 \<Longrightarrow> get_difficulty q = 1 \<and> q \<in> set qs"
    "\<And>q. q \<in> set s2 \<Longrightarrow> get_difficulty q = 2 \<and> q \<in> set qs"
    "\<And>q. q \<in> set s3 \<Longrightarrow> get_difficulty q = 3 \<and> q \<in> set qs"
    "\<And>q. q \<in> set s4 \<Longrightarrow> get_difficulty q = 4 \<and> q \<in> set qs"
    "\<And>q. q \<in> set s5 \<Longrightarrow> get_difficulty q = 5 \<and> q \<in> set qs"
    using sub by auto
  have disj: "set s1 \<inter> set s2 = {}" "set s1 \<inter> set s3 = {}" "set s1 \<inter> set s4 = {}"
    "set s1 \<inter> set s5 = {}" "set s2 \<inter> set s3 = {}" "set s2 \<inter> set s4 = {}"
    "set s2 \<inter> set s5 = {}" "set s3 \<inter> set s4 = {}" "set s3 \<inter> set s5 = {}"
    "set s4 \<inter> set s5 = {}"
    using lev by fastforce+
  have d: "distinct (s1 @ s2 @ s3 @ s4 @ s5)"
    using dist disj by (simp add: Int_Un_distrib)
  have s: "set (s1 @ s2 @ s3 @ s4 @ s5) \<subseteq> set (filter in_levels qs)"
    using lev by (auto simp: levels_def)
  have l: "length (s1 @ s2 @ s3 @ s4 @ s5) = (\<Sum>l\<leftarrow>levels. min 2 (length (pool_of qs l)))"
    using len by (simp add: levels_def)
  have c: "length (filter (\<lambda>q. get_difficulty q = t) (s1 @ s2 @ s3 @ s4 @ s5))
      = min 2 (length (pool_of qs t))" if "t \<in> set levels" for t
  proof -
    have "filter (\<lambda>q. get_difficulty q = t) (s1 @ s2 @ s3 @ s4 @ s5) =
        (if t = 1 then s1 else []) @ (if t = 2 then s2 else []) @ (if t = 3 then s3 else []) @
        (if t = 4 then s4 else []) @ (if t = 5 then s5 else [])"
      by (simp only: filter_append filter_level_sub [OF sub(1)] filter_level_sub [OF sub(2)]
        filter_level_sub [OF sub(3)] filter_level_sub [OF sub(4)] filter_level_sub [OF sub(5)])
    moreover have "t = 1 \<or> t = 2 \<or> t = 3 \<or> t = 4 \<or> t = 5"
      using that by (simp add: levels_def)
    ultimately show ?thesis using len by fastforce
  qed
  show ?thesis by (rule that [OF r d s l c])
qed


lemma fill_remaining_props:
  assumes dq: "distinct (map fst qs)"
    and d1: "distinct plan1"
    and s1: "set plan1 \<subseteq> set (filter in_levels qs)"
    and l1: "length plan1 < 10"
  obtains plan2 g2 where
    "fill_remaining (group_questions qs) plan1 g = Inr (plan2, g2)"
    "distinct plan2"
    "set plan2 \<subseteq> set (filter in_levels qs)"
    "length plan2 = min 10 (length (filter in_levels qs))"
proof -
  let ?A = "filter in_levels qs"
  have "\<forall>l\<in>set levels. group_questions qs l = Some (pool_of qs l)"
    by (simp add: group_questions_lookup)
  from collect_remaining_spec [OF this, of "[]" g]
  obtain rem g1 where cr: "collect_remaining (group_questions qs) levels [] g = Inr (rem, g1)"
    and "mset rem = mset (concat (map (pool_of qs) levels))" by auto
  then have mrem: "mset rem = mset ?A" by (simp only: mset_pools)
  have dqs: "distinct qs" and inj: "inj_on fst (set qs)"
    using dq by (simp_all add: distinct_map)
  have dA: "distinct ?A" using dqs by simp
  have drem: "distinct rem" using mset_eq_imp_distinct_iff [OF mrem] dA by simp
  have srem: "set rem = set ?A" using mrem by (rule mset_eq_setD)
  define rem' where "rem' = filter (\<lambda>q. fst q \<notin> set (map fst plan1)) rem"
  have by_id: "fst q \<in> set (map fst plan1) \<longleftrightarrow> q \<in> set plan1" if "q \<in> set rem" for q
  proof
    assume "fst q \<in> set (map fst plan1)"
    then obtain p where p: "p \<in> set plan1" "fst p = fst q" by auto
    with s1 have "p \<in> set qs" by auto
    moreover from that srem have "q \<in> set qs" by auto
    ultimately have "p = q" using inj p(2) by (auto dest: inj_onD)
    with p(1) show "q \<in> set plan1" by simp
  qed auto
  have srem': "set rem' = set ?A - set plan1"
  proof -
    have "set rem' = {q \<in> set rem. q \<notin> set plan1}"
      unfolding rem'_def using by_id by (simp only: set_filter) blast
    then show ?thesis unfolding srem by blast
  qed
  have drem': "distinct rem'" unfolding rem'_def using drem by simp
  have "length rem' = card (set ?A - set plan1)"
    using drem' srem' by (metis distinct_card)
  also have "\<dots> = card (set ?A) - card (set plan1)"
    using s1 by (intro card_Diff_subset) auto
  also have "\<dots> = length ?A - length plan1"
    using distinct_card [OF dA] distinct_card [OF d1] by (simp only:)
  finally have lrem': "length rem' = length ?A - length plan1" .
  have l1A: "length plan1 \<le> length ?A"
    using d1 dA s1 by (metis card_mono distinct_card List.finite_set)
  obtain sh g2 where sh: "shuffle rem' g1 = (sh, g2)" by (cases "shuffle rem' g1")
  then have sh_eq: "sh = fst (shuffle rem' g1)" by simp
  have ssh: "set sh = set rem'" and dsh: "distinct sh" and lsh: "length sh = length rem'"
    using drem' by (simp_all add: sh_eq set_shuffle distinct_shuffle length_shuffle)
  let ?plan2 = "plan1 @ take (10 - length plan1) sh"
  have r: "fill_remaining (group_questions qs) plan1 g = Inr (?plan2, g2)"
    using cr sh by (simp add: fill_remaining_def rem'_def)
  have sub_take: "set (take (10 - length plan1) sh) \<subseteq> set ?A - set plan1"
    using set_take_subset [of "10 - length plan1" sh] ssh srem' by simp
  have d2: "distinct ?plan2"
    using d1 dsh sub_take by auto
  have s2: "set ?plan2 \<subseteq> set ?A"
    using s1 sub_take by auto
  have l2: "length ?plan2 = min 10 (length ?A)"
    using l1 l1A lsh lrem' by simp
  show ?thesis by (rule that [OF r d2 s2 l2])
qed




lemma build_all_levels_plan_spec:
  assumes dq: "distinct (map fst qs)"
  obtains plan g' where
    "build_all_levels_plan qs g = Inr (plan, g')"
    "distinct (map fst plan)"
    "set plan \<subseteq> set (filter in_levels qs)"
    "length plan = min 10 (length (filter in_levels qs))"
    "(\<forall>l\<in>set levels. 2 \<le> length (pool_of qs l)) \<Longrightarrow>
       length plan = 10 \<and> (\<forall>t\<in>set levels. length (pool_of plan t) = 2)"
proof -
  let ?A = "filter in_levels qs"
  have dqs: "distinct qs" and inj: "inj_on fst (set qs)"
    using dq by (simp_all add: distinct_map)
  obtain plan1 g1 where
    fp: "first_pass (group_questions qs) levels [] g = Inr (plan1, g1)"
    and d1: "distinct plan1"
    and s1: "set plan1 \<subseteq> set ?A"
    and l1: "length plan1 = (\<Sum>l\<leftarrow>levels. min 2 (length (pool_of qs l)))"
    and c1: "\<And>t. t \<in> set levels \<Longrightarrow> length (pool_of plan1 t) = min 2 (length (pool_of qs t))"
    using first_pass_props [OF dqs, of g] by blast
  have l1le: "length plan1 \<le> 10"
    unfolding l1 by (simp add: levels_def)
  have l1A: "length plan1 \<le> length ?A"
    using d1 dqs s1 by (metis card_mono distinct_card distinct_filter List.finite_set)
  obtain plan2 g2 where
    mid: "(if length plan1 < 10 then fill_remaining (group_questions qs) plan1 g1
           else Inr (plan1, g1)) = Inr (plan2, g2)"
    and d2: "distinct plan2"
    and s2: "set plan2 \<subseteq> set ?A"
    and l2: "length plan2 = min 10 (length ?A)"
    and same: "\<not> length plan1 < 10 \<Longrightarrow> plan2 = plan1"
  proof (cases "length plan1 < 10")
    case True
    from fill_remaining_props [OF dq d1 s1 True, of g1]
    obtain p2 h2 where "fill_remaining (group_questions qs) plan1 g1 = Inr (p2, h2)"
      "distinct p2" "set p2 \<subseteq> set ?A" "length p2 = min 10 (length ?A)"
      by blast
    with True show ?thesis by (intro that [of p2 h2]) simp_all
  next
    case False
    with l1le l1A have "length plan1 = min 10 (length ?A)" by simp
    with that [of plan1 g1] False d1 s1 show ?thesis by simp
  qed
  obtain final g3 where sh: "shuffle plan2 g2 = (final, g3)" by (cases "shuffle plan2 g2")
  then have final: "final = fst (shuffle plan2 g2)" by simp
  have mf: "mset final = mset plan2" unfolding final by (rule mset_shuffle)
  have lf: "length final = length plan2" using mf by (rule mset_eq_length)
  have sf: "set final = set plan2" using mf by (rule mset_eq_setD)
  have df: "distinct final" using mset_eq_imp_distinct_iff [OF mf] d2 by simp
  have t10: "take 10 final = final" using lf l2 by simp
  have r: "build_all_levels_plan qs g = Inr (final, g3)"
    unfolding build_all_levels_plan_def Let_def using fp mid sh t10 by simp
  have "inj_on fst (set final)"
    using inj sf s2 by (auto intro: inj_on_subset)
  with df have dids: "distinct (map fst final)" by (simp add: distinct_map)
  have sfin: "set final \<subseteq> set ?A" using sf s2 by simp
  have lfin: "length final = min 10 (length ?A)" using lf l2 by simp
  have tiers: "length final = 10 \<and> (\<forall>t\<in>set levels. length (pool_of final t) = 2)"
    if big: "\<forall>l\<in>set levels. 2 \<le> length (pool_of qs l)"
  proof (intro conjI ballI)
    from big have "length plan1 = 10" unfolding l1 by (simp add: levels_def)
    then have same2: "plan2 = plan1" using same by simp
    with lf \<open>length plan1 = 10\<close> show "length final = 10" by simp
    fix t assume t: "t \<in> set levels"
    from same2 mf have "mset (pool_of final t) = mset (pool_of plan1 t)" by simp
    then have "length (pool_of final t) = length (pool_of plan1 t)" by (rule mset_eq_length)
    also have "\<dots> = 2" using c1 [OF t] big t by simp
    finally show "length (pool_of final t) = 2" .
  qed
  show ?thesis by (rule that [OF r dids sfin lfin tiers])
qed

lemma build_single_level_plan_spec:
  assumes dq: "distinct (map fst qs)"
  obtains plan g' where
    "build_single_level_plan qs level g = (plan, g')"
    "distinct (map fst plan)"
    "mset plan \<subseteq># mset (pool_of qs level)"
    "length plan = min 10 (length (pool_of qs level))"
proof -
  have dqs: "distinct qs" and inj: "inj_on fst (set qs)"
    using dq by (simp_all add: distinct_map)
  obtain sh g' where sh: "shuffle (pool_of qs level) g = (sh, g')"
    by (cases "shuffle (pool_of qs level) g")
  then have sh_eq: "sh = fst (shuffle (pool_of qs level) g)" by simp
  have m: "mset sh = mset (pool_of qs level)" unfolding sh_eq by (rule mset_shuffle)
  have r: "build_single_level_plan qs level g = (take 10 sh, g')"
    using sh by (simp add: build_single_level_plan_def)
  have "mset sh = mset (take 10 sh) + mset (drop 10 sh)"
    by (metis append_take_drop_id mset_append)
  then have sub: "mset (take 10 sh) \<subseteq># mset (pool_of qs level)"
    using m by (metis mset_subset_eq_add_left)
  have len: "length (take 10 sh) = min 10 (length (pool_of qs level))"
    using mset_eq_length [OF m] by simp
  have "distinct sh" using mset_eq_imp_distinct_iff [OF m] dqs by simp
  then have d: "distinct (take 10 sh)" by simp
  have "set (take 10 sh) \<subseteq> set qs"
    using set_mset_mono [OF sub] by auto
  then have "inj_on fst (set (take 10 sh))" using inj by (rule inj_on_subset [rotated])
  with d have dids: "distinct (map fst (take 10 sh))" by (simp add: distinct_map)
  show ?thesis by (rule that [OF r dids sub len])
qed

lemma set_levels: "set levels = {1..5}"
  by (auto simp: levels_def)

lemma distinct_ids_load_questions: "distinct (map fst (load_questions file))"
  by (cases "file") (simp_all add: load_questions_def)


lemma build_all_levels_plan_total:
  "\<exists>plan g'. build_all_levels_plan qs g = Inr (plan, g')"
proof -
  have gl: "\<forall>l\<in>set levels. group_questions qs l = Some (pool_of qs l)"
    by (simp add: group_questions_lookup)
  from first_pass_spec [OF gl, of "[]" g]
  obtain plan1 g1 where fp: "first_pass (group_questions qs) levels [] g = Inr (plan1, g1)"
    by auto
  from collect_remaining_spec [OF gl, of "[]" g1]
  obtain rem g2 where cr: "collect_remaining (group_questions qs) levels [] g1 = Inr (rem, g2)"
    by auto
  show ?thesis
    unfolding build_all_levels_plan_def fill_remaining_def Let_def
    by (simp add: fp cr split: prod.split)
qed


section \<open>The stratified plan\<close>

text \<open>
  Claim C1. For every catalog with at least 2 questions in each of the levels 1 to 5,
  \<open>build_all_levels_plan\<close> returns a plan of exactly 10 questions, exactly 2 of each
  level, all of them distinct objects of the catalog.
\<close>

theorem stratified_plan_two_per_tier:
  assumes "\<forall>l\<in>{1..5}. 2 \<le> length (filter (\<lambda>q. get_difficulty q = l) (load_questions file))"
  shows "\<exists>plan g'. build_all_levels_plan (load_questions file) g = Inr (plan, g') \<and>
           length plan = 10 \<and>
           (\<forall>t\<in>{1..5}. length (filter (\<lambda>q. get_difficulty q = t) plan) = 2) \<and>
           distinct (map fst plan) \<and> set plan \<subseteq> set (load_questions file)"
proof -
  let ?qs = "load_questions file"
  from assms have big: "\<forall>l\<in>set levels. 2 \<le> length (pool_of ?qs l)"
    by (simp only: set_levels)
  obtain plan g' where r: "build_all_levels_plan ?qs g = Inr (plan, g')"
    and d: "distinct (map fst plan)"
    and s: "set plan \<subseteq> set (filter in_levels ?qs)"
    and l: "length plan = min 10 (length (filter in_levels ?qs))"
    and t: "(\<forall>l\<in>set levels. 2 \<le> length (pool_of ?qs l)) \<Longrightarrow>
       length plan = 10 \<and> (\<forall>t\<in>set levels. length (pool_of plan t) = 2)"
    using build_all_levels_plan_spec [OF distinct_ids_load_questions [of "file"], where g = g]
    by blast
  from t [OF big] have two: "length plan = 10 \<and> (\<forall>t\<in>{1..5}. length (pool_of plan t) = 2)"
    unfolding set_levels .
  from s have "set plan \<subseteq> set ?qs" by auto
  with r d two show ?thesis by blast
qed

theorem stratified_plan_two_per_tier_witness:
  "map (\<lambda>l. length (filter (\<lambda>q. get_difficulty q = l) (load_questions full_file))) [1, 2, 3, 4, 5]
     = [2, 2, 2, 2, 2] \<and>
   (\<exists>plan g'. build_all_levels_plan (load_questions full_file) sample_rng = Inr (plan, g') \<and>
      length plan = 10 \<and>
      (\<forall>t\<in>{1..5}. length (filter (\<lambda>q. get_difficulty q = t) plan) = 2) \<and>
      distinct (map fst plan) \<and> set plan \<subseteq> set (load_questions full_file))"
proof -
  have m: "map (\<lambda>l. length (filter (\<lambda>q. get_difficulty q = l) (load_questions full_file)))
      [1, 2, 3, 4, 5] = [2, 2, 2, 2, 2]"
    by code_simp
  have h: "\<forall>l\<in>{1..5}. 2 \<le> length (filter (\<lambda>q. get_difficulty q = l) (load_questions full_file))"
    by code_simp
  from m stratified_plan_two_per_tier [OF h, of sample_rng] show ?thesis by (rule conjI)
qed

text \<open>
  Claim C2. For every catalog whose questions all have a level from 1 to 5,
  \<open>build_all_levels_plan\<close> returns a plan without duplicates whose length is the
  minimum of 10 and the number of questions; with fewer than 10 questions the plan
  holds all of them.
\<close>

theorem stratified_plan_length:
  assumes "\<forall>q\<in>set (load_questions file). get_difficulty q \<in> {1..5}"
  shows "\<exists>plan g'. build_all_levels_plan (load_questions file) g = Inr (plan, g') \<and>
           distinct (map fst plan) \<and> set plan \<subseteq> set (load_questions file) \<and>
           length plan = min 10 (length (load_questions file)) \<and>
           (length (load_questions file) < 10 \<longrightarrow> set plan = set (load_questions file))"
proof -
  let ?qs = "load_questions file"
  have dq: "distinct (map fst ?qs)" by (rule distinct_ids_load_questions)
  then have dqs: "distinct ?qs" by (simp add: distinct_map)
  from assms have all: "filter in_levels ?qs = ?qs"
    by (simp add: set_levels)
  obtain plan g' where r: "build_all_levels_plan ?qs g = Inr (plan, g')"
    and d: "distinct (map fst plan)"
    and s: "set plan \<subseteq> set (filter in_levels ?qs)"
    and l: "length plan = min 10 (length (filter in_levels ?qs))"
    and t: "(\<forall>l\<in>set levels. 2 \<le> length (pool_of ?qs l)) \<Longrightarrow>
       length plan = 10 \<and> (\<forall>t\<in>set levels. length (pool_of plan t) = 2)"
    using build_all_levels_plan_spec [OF dq, where g = g] by blast
  from s l have s': "set plan \<subseteq> set ?qs" and l': "length plan = min 10 (length ?qs)"
    by (simp_all only: all)
  have "set plan = set ?qs" if "length ?qs < 10"
  proof (rule card_subset_eq [OF _ s'])
    from d have "distinct plan" by (simp add: distinct_map)
    then have "card (set plan) = length plan" by (rule distinct_card)
    also have "\<dots> = length ?qs" using l' that by simp
    also have "\<dots> = card (set ?qs)" using dqs by (simp add: distinct_card)
    finally show "card (set plan) = card (set ?qs)" .
  qed simp
  with r d s' l' show ?thesis by blast
qed

theorem stratified_plan_length_witness:
  "map get_difficulty (load_questions small_file) = [1, 3, 5] \<and>
   (\<exists>plan g'. build_all_levels_plan (load_questions small_file) sample_rng = Inr (plan, g') \<and>
      distinct (map fst plan) \<and> set plan \<subseteq> set (load_questions small_file) \<and>
      length plan = min 10 (length (load_questions small_file)) \<and>
      (length (load_questions small_file) < 10 \<longrightarrow> set plan = set (load_questions small_file)))"
proof -
  have m: "map get_difficulty (load_questions small_file) = [1, 3, 5]"
    by code_simp
  have h: "\<forall>q\<in>set (load_questions small_file). get_difficulty q \<in> {1..5}"
    by code_simp
  from m stratified_plan_length [OF h, of sample_rng] show ?thesis by (rule conjI)
qed

text \<open>
  Claim C10. A question whose level (3 when the field is absent) is not one of 1 to 5
  is never in a stratified plan, and does not count towards the length of the plan,
  which is the minimum of 10 and the number of questions with a level from 1 to 5.
\<close>

theorem stratified_plan_skips_unknown_levels:
  "\<exists>plan g'. build_all_levels_plan (load_questions file) g = Inr (plan, g') \<and>
     (\<forall>q\<in>set (load_questions file). get_difficulty q \<notin> {1..5} \<longrightarrow> q \<notin> set plan) \<and>
     length plan =
       min 10 (length (filter (\<lambda>q. get_difficulty q \<in> {1..5}) (load_questions file)))"
proof -
  let ?qs = "load_questions file"
  obtain plan g' where r: "build_all_levels_plan ?qs g = Inr (plan, g')"
    and d: "distinct (map fst plan)"
    and s: "set plan \<subseteq> set (filter in_levels ?qs)"
    and l: "length plan = min 10 (length (filter in_levels ?qs))"
    and t: "(\<forall>l\<in>set levels. 2 \<le> length (pool_of ?qs l)) \<Longrightarrow>
       length plan = 10 \<and> (\<forall>t\<in>set levels. length (pool_of plan t) = 2)"
    using build_all_levels_plan_spec [OF distinct_ids_load_questions [of "file"], where g = g]
    by blast
  from s have "\<forall>q\<in>set ?qs. get_difficulty q \<notin> {1..5} \<longrightarrow> q \<notin> set plan"
    by (auto simp: set_levels)
  moreover from l have "length plan = min 10 (length (filter (\<lambda>q. get_difficulty q \<in> {1..5}) ?qs))"
    by (simp only: set_levels)
  ultimately show ?thesis using r by blast
qed

theorem stratified_plan_skips_unknown_levels_witness:
  "(\<exists>q\<in>set (load_questions odd_file). get_difficulty q \<notin> {1..5}) \<and>
   (\<exists>plan g'. build_all_levels_plan (load_questions odd_file) sample_rng = Inr (plan, g') \<and>
      (\<forall>q\<in>set (load_questions odd_file). get_difficulty q \<notin> {1..5} \<longrightarrow> q \<notin> set plan) \<and>
      length plan =
        min 10 (length (filter (\<lambda>q. get_difficulty q \<in> {1..5}) (load_questions odd_file))))"
proof -
  have h: "\<exists>q\<in>set (load_questions odd_file). get_difficulty q \<notin> {1..5}"
    by code_simp
  from h stratified_plan_skips_unknown_levels [of odd_file sample_rng] show ?thesis
    by (rule conjI)
qed


section \<open>The plan of one level\<close>

text \<open>
  Claim C9. For every level, \<open>build_single_level_plan\<close> returns a plan of at most 10
  questions, each of that level and of the catalog, without duplicates; a level without
  questions gives the empty plan.
\<close>

theorem single_level_plan:
  "\<exists>plan g'. build_single_level_plan (load_questions file) level g = (plan, g') \<and>
     length plan \<le> 10 \<and>
     (\<forall>q\<in>set plan. get_difficulty q = level \<and> q \<in> set (load_questions file)) \<and>
     distinct (map fst plan) \<and>
     length plan = min 10 (length (filter (\<lambda>q. get_difficulty q = level) (load_questions file))) \<and>
     (filter (\<lambda>q. get_difficulty q = level) (load_questions file) = [] \<longrightarrow> plan = [])"
proof -
  let ?qs = "load_questions file"
  obtain plan g' where r: "build_single_level_plan ?qs level g = (plan, g')"
    and d: "distinct (map fst plan)"
    and s: "mset plan \<subseteq># mset (pool_of ?qs level)"
    and l: "length plan = min 10 (length (pool_of ?qs level))"
    using build_single_level_plan_spec [OF distinct_ids_load_questions [of "file"],
        where level = level and g = g]
    by blast
  from set_mset_mono [OF s]
  have "\<forall>q\<in>set plan. get_difficulty q = level \<and> q \<in> set ?qs" by auto
  moreover from l have "length plan \<le> 10" by simp
  moreover from l have "pool_of ?qs level = [] \<longrightarrow> plan = []" by auto
  ultimately show ?thesis using r d l by blast
qed

theorem single_level_plan_witness:
  "filter (\<lambda>q. get_difficulty q = 2) (load_questions small_file) = [] \<and>
   fst (build_single_level_plan (load_questions small_file) 2 sample_rng) = [] \<and>
   filter (\<lambda>q. get_difficulty q = 3) (load_questions small_file) \<noteq> [] \<and>
   (\<exists>plan g'. build_single_level_plan (load_questions small_file) 3 sample_rng = (plan, g') \<and>
      length plan \<le> 10 \<and>
      (\<forall>q\<in>set plan. get_difficulty q = 3 \<and> q \<in> set (load_questions small_file)) \<and>
      distinct (map fst plan) \<and>
      length plan =
        min 10 (length (filter (\<lambda>q. get_difficulty q = 3) (load_questions small_file))) \<and>
      (filter (\<lambda>q. get_difficulty q = 3) (load_questions small_file) = [] \<longrightarrow> plan = []))"
proof -
  have h2: "filter (\<lambda>q. get_difficulty q = 2) (load_questions small_file) = []"
    by code_simp
  have h3: "filter (\<lambda>q. get_difficulty q = 3) (load_questions small_file) \<noteq> []"
    by code_simp
  from h2 single_level_plan [of small_file 2 sample_rng]
  have e: "fst (build_single_level_plan (load_questions small_file) 2 sample_rng) = []"
    by auto
  from h2 e h3 single_level_plan [of small_file 3 sample_rng] show ?thesis
    by (intro conjI)
qed

section \<open>Starting and continuing a quiz\<close>

lemma build_plan_total: "\<exists>plan g'. build_plan questions c g = Inr (plan, g')"
proof (cases c)
  case AllLevels
  then show ?thesis using build_all_levels_plan_total by (simp add: build_plan_def)
next
  case (Level d)
  then show ?thesis
    by (cases "build_single_level_plan questions d g") (simp add: build_plan_def)
qed

lemma new_session_unfold:
  assumes "user_difficulty s uid = Some c"
    and "build_plan questions c (random_state s) = Inr (plan, g')"
  shows "new_session questions uid s =
     (if plan = [] then
        Inl \<lparr>sent = [no_questions_message c], returned = Inr END,
             after = s\<lparr>user_scores := (user_scores s)(uid \<mapsto> 0), random_state := g'\<rparr>\<rparr>
      else
        Inr (plan,
             s\<lparr>user_scores := (user_scores s)(uid \<mapsto> 0), random_state := g',
               user_question_list := (user_question_list s)(uid \<mapsto> plan),
               user_question_index := (user_question_index s)(uid \<mapsto> 0)\<rparr>))"
  using assms by (simp add: new_session_def)

lemma quiz_unfold:
  "quiz questions uid s =
     (if questions = [] then
        \<lparr>sent = [QuestionsNotLoaded], returned = Inr END, after = init_user uid s\<rparr>
      else if no_active_plan (user_question_list s uid) (get_index s uid) then
        (case new_session questions uid (init_user uid s) of
           Inl r \<Rightarrow> r
         | Inr (plan', s3) \<Rightarrow> present_question plan' 0 uid s3)
      else present_question (get_plan s uid) (get_index s uid) uid (init_user uid s))"
  by (simp add: quiz_def init_user_def Let_def get_index_def get_plan_def)

lemma init_user_fields:
  "user_scores (init_user uid s) uid = Some (get_score s uid)"
  "\<exists>c. user_difficulty (init_user uid s) uid = Some c"
  "user_question_list (init_user uid s) = user_question_list s"
  "user_question_index (init_user uid s) = user_question_index s"
  "current_question (init_user uid s) = current_question s"
  "random_state (init_user uid s) = random_state s"
  by (auto simp: init_user_def Let_def get_score_def split: option.splits)

text \<open>
  Claim C3, as the code has it. With a non-empty catalog, \<open>quiz\<close> sets the score to 0
  exactly when it finds no plan in progress, before it builds the new plan: also when
  the build gives an empty plan, the handler ends the conversation and plan and position
  stay as they were. On success the new plan is stored with position 0. When it finds a
  plan in progress it continues it, with the score, the plan and the position unchanged.
  With an empty catalog the score stays. \<open>handle_answer\<close> never lowers the score, and
  \<open>handle_difficulty\<close> and \<open>cancel\<close> leave it alone.
\<close>

theorem quiz_score_reset:
  "(questions \<noteq> [] \<and> \<not> no_active_plan (user_question_list s uid) (get_index s uid) \<longrightarrow>
      returned (quiz questions uid s) = Inr QUESTION \<and>
      user_scores (after (quiz questions uid s)) uid = Some (get_score s uid) \<and>
      user_question_list (after (quiz questions uid s)) = user_question_list s \<and>
      user_question_index (after (quiz questions uid s)) = user_question_index s) \<and>
   (questions \<noteq> [] \<and> no_active_plan (user_question_list s uid) (get_index s uid) \<longrightarrow>
      user_scores (after (quiz questions uid s)) uid = Some 0 \<and>
      (\<exists>c plan g'.
         user_difficulty (init_user uid s) uid = Some c \<and>
         build_plan questions c (random_state s) = Inr (plan, g') \<and>
         (plan = [] \<longrightarrow>
            sent (quiz questions uid s) = [no_questions_message c] \<and>
            returned (quiz questions uid s) = Inr END \<and>
            user_question_list (after (quiz questions uid s)) = user_question_list s \<and>
            user_question_index (after (quiz questions uid s)) = user_question_index s) \<and>
         (plan \<noteq> [] \<longrightarrow>
            returned (quiz questions uid s) = Inr QUESTION \<and>
            user_question_list (after (quiz questions uid s)) uid = Some plan \<and>
            user_question_index (after (quiz questions uid s)) uid = Some 0))) \<and>
   (questions = [] \<longrightarrow>
      user_scores (after (quiz questions uid s)) uid = Some (get_score s uid)) \<and>
   get_score s uid \<le> get_score (after (handle_answer uid a s)) uid \<and>
   user_scores (after (handle_difficulty uid d s)) = user_scores s \<and>
   user_scores (after (cancel uid s)) = user_scores s"
proof (intro conjI impI)
  assume a: "questions \<noteq> [] \<and> \<not> no_active_plan (user_question_list s uid) (get_index s uid)"
  then have lt: "get_index s uid < length (get_plan s uid)"
    by (auto simp: no_active_plan_def get_plan_def split: option.splits)
  with a have q: "quiz questions uid s =
      \<lparr>sent = [QuestionPresented (get_index s uid + 1) (length (get_plan s uid))
                 (get_plan s uid ! get_index s uid)],
       returned = Inr QUESTION,
       after = (init_user uid s)\<lparr>current_question :=
         (current_question (init_user uid s))(uid \<mapsto> get_plan s uid ! get_index s uid)\<rparr>\<rparr>"
    by (simp add: quiz_unfold present_question_def Let_def)
  show "returned (quiz questions uid s) = Inr QUESTION"
    "user_scores (after (quiz questions uid s)) uid = Some (get_score s uid)"
    "user_question_list (after (quiz questions uid s)) = user_question_list s"
    "user_question_index (after (quiz questions uid s)) = user_question_index s"
    by (simp_all add: q init_user_fields)
next
  assume a: "questions \<noteq> [] \<and> no_active_plan (user_question_list s uid) (get_index s uid)"
  obtain c where c: "user_difficulty (init_user uid s) uid = Some c"
    using init_user_fields(2) by blast
  obtain plan g' where b: "build_plan questions c (random_state s) = Inr (plan, g')"
    using build_plan_total by blast
  then have b': "build_plan questions c (random_state (init_user uid s)) = Inr (plan, g')"
    by (simp add: init_user_fields)
  note ns = new_session_unfold [OF c b']
  show "user_scores (after (quiz questions uid s)) uid = Some 0"
    using a by (cases "plan = []")
      (simp_all add: quiz_unfold ns present_question_def Let_def)
  have e: "plan = [] \<longrightarrow>
      sent (quiz questions uid s) = [no_questions_message c] \<and>
      returned (quiz questions uid s) = Inr END \<and>
      user_question_list (after (quiz questions uid s)) = user_question_list s \<and>
      user_question_index (after (quiz questions uid s)) = user_question_index s"
    using a by (simp add: quiz_unfold ns init_user_fields)
  have n: "plan \<noteq> [] \<longrightarrow>
      returned (quiz questions uid s) = Inr QUESTION \<and>
      user_question_list (after (quiz questions uid s)) uid = Some plan \<and>
      user_question_index (after (quiz questions uid s)) uid = Some 0"
    using a by (simp add: quiz_unfold ns present_question_def Let_def)
  from c b e n show "\<exists>c plan g'.
         user_difficulty (init_user uid s) uid = Some c \<and>
         build_plan questions c (random_state s) = Inr (plan, g') \<and>
         (plan = [] \<longrightarrow>
            sent (quiz questions uid s) = [no_questions_message c] \<and>
            returned (quiz questions uid s) = Inr END \<and>
            user_question_list (after (quiz questions uid s)) = user_question_list s \<and>
            user_question_index (after (quiz questions uid s)) = user_question_index s) \<and>
         (plan \<noteq> [] \<longrightarrow>
            returned (quiz questions uid s) = Inr QUESTION \<and>
            user_question_list (after (quiz questions uid s)) uid = Some plan \<and>
            user_question_index (after (quiz questions uid s)) uid = Some 0)"
    by blast
next
  assume "questions = []"
  then show "user_scores (after (quiz questions uid s)) uid = Some (get_score s uid)"
    by (simp add: quiz_unfold init_user_fields)
next
  show "get_score s uid \<le> get_score (after (handle_answer uid a s)) uid"
    by (auto simp: handle_answer_def check_answer_def advance_def Let_def get_score_def
        split: option.splits)
next
  show "user_scores (after (handle_difficulty uid d s)) = user_scores s"
    by (simp add: handle_difficulty_def Let_def)
next
  show "user_scores (after (cancel uid s)) = user_scores s"
    by (simp add: cancel_def)
qed

text \<open>
  The claim as stated fails: a user who has finished a quiz with score 1 and then chosen
  level 4, which has no questions, is told so by \<open>quiz\<close>, which ends the conversation
  without a plan; the score is 0 afterwards.
\<close>

theorem quiz_score_reset_counterexample:
  "get_score finished_level4 7 = 1 \<and>
   sent (quiz (load_questions one_file) 7 finished_level4) = [NoQuestionsForLevel 4] \<and>
   returned (quiz (load_questions one_file) 7 finished_level4) = Inr END \<and>
   user_question_list (after (quiz (load_questions one_file) 7 finished_level4)) 7 = Some [] \<and>
   get_score (after (quiz (load_questions one_file) 7 finished_level4)) 7 = 0"
  by code_simp

theorem quiz_score_reset_witness:
  "load_questions two_file \<noteq> [] \<and>
   \<not> no_active_plan (user_question_list (started two_file) 7) (get_index (started two_file) 7) \<and>
   user_scores (after (quiz (load_questions two_file) 7 (started two_file))) 7
     = Some (get_score (started two_file) 7) \<and>
   load_questions one_file \<noteq> [] \<and>
   no_active_plan (user_question_list finished_level4 7) (get_index finished_level4 7) \<and>
   get_score finished_level4 7 = 1 \<and>
   user_difficulty (init_user 7 finished_level4) 7 = Some (Level 4) \<and>
   map_sum id fst (build_plan (load_questions one_file) (Level 4) (random_state finished_level4))
     = Inr [] \<and>
   user_scores (after (quiz (load_questions one_file) 7 finished_level4)) 7 = Some 0 \<and>
   returned (quiz (load_questions one_file) 7 finished_level4) = Inr END \<and>
   no_active_plan (user_question_list finished 7) (get_index finished 7) \<and>
   user_difficulty (init_user 7 finished) 7 = Some AllLevels \<and>
   map_sum id (map fst \<circ> fst) (build_plan (load_questions one_file) AllLevels (random_state finished))
     = Inr [0] \<and>
   user_scores (after (quiz (load_questions one_file) 7 finished)) 7 = Some 0 \<and>
   returned (quiz (load_questions one_file) 7 finished) = Inr QUESTION \<and>
   user_question_index (after (quiz (load_questions one_file) 7 finished)) 7 = Some 0"
proof -
  have h1: "load_questions two_file \<noteq> [] \<and>
      \<not> no_active_plan (user_question_list (started two_file) 7) (get_index (started two_file) 7)"
    by code_simp
  have h2: "load_questions one_file \<noteq> [] \<and>
      no_active_plan (user_question_list finished_level4 7) (get_index finished_level4 7)"
    by code_simp
  have h3: "load_questions one_file \<noteq> [] \<and>
      no_active_plan (user_question_list finished 7) (get_index finished 7)"
    by code_simp
  have d4: "user_difficulty (init_user 7 finished_level4) 7 = Some (Level 4)"
    and b4: "map_sum id fst
        (build_plan (load_questions one_file) (Level 4) (random_state finished_level4)) = Inr []"
    and s4: "get_score finished_level4 7 = 1"
    by code_simp+
  have d0: "user_difficulty (init_user 7 finished) 7 = Some AllLevels"
    and b0: "map_sum id (map fst \<circ> fst)
        (build_plan (load_questions one_file) AllLevels (random_state finished)) = Inr [0]"
    by code_simp+
  from h1 quiz_score_reset [of "load_questions two_file" "started two_file" 7]
  have c1: "user_scores (after (quiz (load_questions two_file) 7 (started two_file))) 7
     = Some (get_score (started two_file) 7)" by blast
  from h2 quiz_score_reset [of "load_questions one_file" finished_level4 7]
  obtain c plan g' where
    "user_scores (after (quiz (load_questions one_file) 7 finished_level4)) 7 = Some 0"
    "user_difficulty (init_user 7 finished_level4) 7 = Some c"
    "build_plan (load_questions one_file) c (random_state finished_level4) = Inr (plan, g')"
    "plan = [] \<longrightarrow> returned (quiz (load_questions one_file) 7 finished_level4) = Inr END"
    by blast
  with d4 b4 have c2: "user_scores (after (quiz (load_questions one_file) 7 finished_level4)) 7 = Some 0 \<and>
    returned (quiz (load_questions one_file) 7 finished_level4) = Inr END"
    by auto
  from h3 quiz_score_reset [of "load_questions one_file" finished 7]
  obtain c plan g' where
    "user_scores (after (quiz (load_questions one_file) 7 finished)) 7 = Some 0"
    "user_difficulty (init_user 7 finished) 7 = Some c"
    "build_plan (load_questions one_file) c (random_state finished) = Inr (plan, g')"
    "plan \<noteq> [] \<longrightarrow> returned (quiz (load_questions one_file) 7 finished) = Inr QUESTION \<and>
       user_question_index (after (quiz (load_questions one_file) 7 finished)) 7 = Some 0"
    by blast
  with d0 b0 have c3: "user_scores (after (quiz (load_questions one_file) 7 finished)) 7 = Some 0 \<and>
    returned (quiz (load_questions one_file) 7 finished) = Inr QUESTION \<and>
    user_question_index (after (quiz (load_questions one_file) 7 finished)) 7 = Some 0"
    by auto
  from h1 h2 h3 d4 b4 s4 d0 b0 c1 c2 c3 show ?thesis by blast
qed

text \<open>
  Claim C4, as the code has it. For a user with a plan in progress and a non-empty
  catalog, \<open>quiz\<close> continues the plan: it presents the question at the current position,
  leaves plan, position and score as they are and does not consult the random generator;
  a second \<open>quiz\<close> right after it gives the same reply and the same state, not an error.
\<close>

theorem quiz_continues_plan:
  assumes "questions \<noteq> []"
    and "user_question_list s uid = Some p"
    and "get_index s uid < length p"
  shows "sent (quiz questions uid s) =
           [QuestionPresented (get_index s uid + 1) (length p) (p ! get_index s uid)] \<and>
         returned (quiz questions uid s) = Inr QUESTION \<and>
         user_question_list (after (quiz questions uid s)) = user_question_list s \<and>
         user_question_index (after (quiz questions uid s)) = user_question_index s \<and>
         get_score (after (quiz questions uid s)) uid = get_score s uid \<and>
         random_state (after (quiz questions uid s)) = random_state s \<and>
         quiz questions uid (after (quiz questions uid s)) = quiz questions uid s"
proof -
  let ?i = "get_index s uid"
  let ?s' = "(init_user uid s)\<lparr>current_question :=
         (current_question (init_user uid s))(uid \<mapsto> p ! ?i)\<rparr>"
  from assms have gp: "get_plan s uid = p" and na: "\<not> no_active_plan (user_question_list s uid) ?i"
    by (auto simp: get_plan_def no_active_plan_def)
  with assms have q: "quiz questions uid s =
      \<lparr>sent = [QuestionPresented (?i + 1) (length p) (p ! ?i)],
       returned = Inr QUESTION, after = ?s'\<rparr>"
    by (simp add: quiz_unfold present_question_def Let_def)
  have f: "user_question_list ?s' = user_question_list s"
    "user_question_index ?s' = user_question_index s"
    "get_index ?s' uid = ?i" "get_plan ?s' uid = p"
    "get_score ?s' uid = get_score s uid"
    "random_state ?s' = random_state s"
    using gp by (simp_all add: init_user_fields get_index_def get_plan_def get_score_def)
  have d: "init_user uid ?s' = ?s'"
    using init_user_fields(1,2) [of uid s]
    by (auto simp: init_user_def Let_def)
  have "quiz questions uid ?s' =
      \<lparr>sent = [QuestionPresented (?i + 1) (length p) (p ! ?i)],
       returned = Inr QUESTION, after = ?s'\<rparr>"
    using assms na by (simp add: quiz_unfold [of questions uid ?s'] f d present_question_def Let_def)
  with q f show ?thesis by simp
qed

theorem quiz_continues_plan_witness:
  "load_questions two_file \<noteq> [] \<and>
   map_option (map fst) (user_question_list (started two_file) 7) = Some [1, 0] \<and>
   get_index (started two_file) 7 = 0 \<and>
   map_option (map fst) (user_question_list (after (quiz (load_questions two_file) 7 (started two_file))) 7)
     = Some [1, 0] \<and>
   returned (quiz (load_questions two_file) 7 (started two_file)) = Inr QUESTION \<and>
   random_state (after (quiz (load_questions two_file) 7 (started two_file)))
     = random_state (started two_file)"
proof -
  have h1: "load_questions two_file \<noteq> []" by code_simp
  have h2: "map_option (map fst) (user_question_list (started two_file) 7) = Some [1, 0]"
    by code_simp
  have h3: "get_index (started two_file) 7 = 0" by code_simp
  from h2 obtain p where p: "user_question_list (started two_file) 7 = Some p"
    and "map fst p = [1, 0]" by auto
  then have "length p = 2" by (metis length_map length_Cons list.size(3) numeral_2_eq_2)
  with h3 have lt: "get_index (started two_file) 7 < length p" by simp
  from quiz_continues_plan [OF h1 p lt] h1 h2 h3 show ?thesis by simp
qed

text \<open>
  The claim as stated fails: after a first \<open>quiz\<close> over two questions the plan is
  \<open>[1, 0]\<close> and one number has been drawn. A second \<open>quiz\<close> leaves that plan and draws
  nothing, and sends the same message again, where a fresh build in that state would
  have drawn again and given \<open>[0, 1]\<close>.
\<close>

theorem quiz_continues_plan_counterexample:
  "map_option (map fst) (user_question_list (started two_file) 7) = Some [1, 0] \<and>
   draws (random_state (started two_file)) = 1 \<and>
   map_sum id (\<lambda>r. (map fst (fst r), draws (snd r)))
     (build_all_levels_plan (load_questions two_file) (random_state (started two_file)))
     = Inr ([0, 1], 2) \<and>
   map_option (map fst)
     (user_question_list (after (quiz (load_questions two_file) 7 (started two_file))) 7)
     = Some [1, 0] \<and>
   draws (random_state (after (quiz (load_questions two_file) 7 (started two_file)))) = 1 \<and>
   sent (quiz (load_questions two_file) 7 (started two_file))
     = sent (quiz (load_questions two_file) 7 (initial_state sample_rng))"
  by code_simp


section \<open>Answering\<close>

text \<open>
  Claim C7. Without a pending question \<open>handle_answer\<close> asks the user to start again,
  ends the conversation and changes nothing, the score in particular.
\<close>

theorem answer_without_question:
  assumes "current_question s uid = None"
  shows "handle_answer uid user_answer s =
           \<lparr>sent = [PleaseRestart], returned = Inr END, after = s\<rparr> \<and>
         get_score (after (handle_answer uid user_answer s)) uid = get_score s uid"
  using assms by (simp add: handle_answer_def)

theorem answer_without_question_witness:
  "current_question (initial_state sample_rng) 7 = None \<and>
   handle_answer 7 ''Geralt'' (initial_state sample_rng) =
     \<lparr>sent = [PleaseRestart], returned = Inr END, after = initial_state sample_rng\<rparr> \<and>
   get_score (after (handle_answer 7 ''Geralt'' (initial_state sample_rng))) 7
     = get_score (initial_state sample_rng) 7"
proof -
  have h: "current_question (initial_state sample_rng) 7 = None"
    by (simp add: initial_state_def)
  from h answer_without_question [OF h, of "''Geralt''"] show ?thesis by simp
qed

text \<open>
  Claim C6. With a pending question, the score goes up by exactly 1 when the answer is
  equal, as a string, to the question's \<open>correct_answer\<close>, and stays otherwise; the
  message for a right answer is sent in exactly that case. The witness answers in another
  case and with a trailing blank.
\<close>

theorem answer_scoring:
  assumes "current_question s uid = Some q"
  shows "get_score (after (handle_answer uid user_answer s)) uid =
           get_score s uid + (if user_answer = correct_answer (snd q) then 1 else 0) \<and>
         ((\<exists>e v. Correct e v \<in> set (sent (handle_answer uid user_answer s))) \<longleftrightarrow>
            user_answer = correct_answer (snd q))"
  using assms
  by (auto simp: handle_answer_def check_answer_def advance_def Let_def get_score_def
      split: option.splits)

theorem answer_scoring_witness:
  "map_option (correct_answer \<circ> snd) (current_question (started two_file) 7) = Some ''Geralt'' \<and>
   get_score (started two_file) 7 = 0 \<and>
   get_score (after (handle_answer 7 ''Geralt'' (started two_file))) 7 = 1 \<and>
   get_score (after (handle_answer 7 ''geralt'' (started two_file))) 7 = 0 \<and>
   get_score (after (handle_answer 7 ''Geralt '' (started two_file))) 7 = 0"
proof -
  have h: "map_option (correct_answer \<circ> snd) (current_question (started two_file) 7) = Some ''Geralt''"
    by code_simp
  have z: "get_score (started two_file) 7 = 0" by code_simp
  from h obtain q where q: "current_question (started two_file) 7 = Some q"
    and c: "correct_answer (snd q) = ''Geralt''" by auto
  from answer_scoring [OF q, of "''Geralt''"] answer_scoring [OF q, of "''geralt''"]
    answer_scoring [OF q, of "''Geralt ''"] c z h
  show ?thesis by simp
qed

text \<open>
  Claim C5. When the answer to the last question of a non-empty plan is handled, every
  completion summary sent has the length of that plan as its total, and one is sent
  whenever the handler returns, with the score as it is then.
\<close>

theorem completion_total:
  assumes "current_question s uid = Some q"
    and "user_question_list s uid = Some p"
    and "p \<noteq> []"
    and "length p \<le> get_index s uid + 1"
  shows "(\<forall>fs t. QuizCompleted fs t \<in> set (sent (handle_answer uid user_answer s)) \<longrightarrow>
            t = length p) \<and>
         (returned (handle_answer uid user_answer s) = Inr END \<longrightarrow>
            (\<exists>m. sent (handle_answer uid user_answer s) =
               [m, QuizCompleted (get_score (after (handle_answer uid user_answer s)) uid)
                     (length p)]))"
  using assms
  by (auto simp: handle_answer_def check_answer_def advance_def Let_def get_score_def
      get_index_def get_plan_def split: option.splits)

theorem completion_total_witness:
  "map_option fst (current_question (started one_file) 7) = Some 0 \<and>
   map_option (map fst) (user_question_list (started one_file) 7) = Some [0] \<and>
   get_index (started one_file) 7 = 0 \<and>
   returned (handle_answer 7 ''Geralt'' (started one_file)) = Inr END \<and>
   (\<exists>m. sent (handle_answer 7 ''Geralt'' (started one_file)) = [m, QuizCompleted 1 1])"
proof -
  have h1: "map_option fst (current_question (started one_file) 7) = Some 0"
    by code_simp
  have h2: "map_option (map fst) (user_question_list (started one_file) 7) = Some [0]"
    by code_simp
  have h3: "get_index (started one_file) 7 = 0"
    by code_simp
  have h4: "returned (handle_answer 7 ''Geralt'' (started one_file)) = Inr END"
    by code_simp
  have h5: "get_score (after (handle_answer 7 ''Geralt'' (started one_file))) 7 = 1"
    by code_simp
  from h1 obtain q where q: "current_question (started one_file) 7 = Some q" by auto
  from h2 obtain p where p: "user_question_list (started one_file) 7 = Some p"
    and ids: "map fst p = [0]" by auto
  from ids have len: "length p = 1" by (metis length_map length_Cons list.size(3) One_nat_def)
  then have ne: "p \<noteq> []" by auto
  from len h3 have last: "length p \<le> get_index (started one_file) 7 + 1" by simp
  from completion_total [OF q p ne last, of "''Geralt''"] h4 h5 len
  have "\<exists>m. sent (handle_answer 7 ''Geralt'' (started one_file)) = [m, QuizCompleted 1 1]"
    by simp
  with h1 h2 h3 h4 show ?thesis by blast
qed

text \<open>The total 10 of the source is that of a user without a plan, or with the empty one.\<close>

lemma completion_total_without_plan:
  assumes "current_question s uid = Some q"
    and "get_plan s uid = []"
    and "returned (handle_answer uid user_answer s) = Inr END"
  shows "\<exists>m. sent (handle_answer uid user_answer s) =
           [m, QuizCompleted (get_score (after (handle_answer uid user_answer s)) uid) 10]"
  using assms
  by (auto simp: handle_answer_def check_answer_def advance_def Let_def get_score_def
      get_index_def get_plan_def split: option.splits if_splits)

text \<open>
  Claim C8, as the code has it. After \<open>handle_answer\<close> has handled a pending question,
  the position is one more than before when that is still inside the plan; otherwise the
  plan is emptied and the position is 0. The pending question is not cleared: it stays
  stored as it was.
\<close>

theorem answer_advances:
  assumes "current_question s uid = Some q"
    and "returned (handle_answer uid user_answer s) = Inr END"
  shows "current_question (after (handle_answer uid user_answer s)) = current_question s \<and>
         (get_index s uid + 1 < length (get_plan s uid) \<longrightarrow>
            user_question_index (after (handle_answer uid user_answer s)) uid
              = Some (get_index s uid + 1) \<and>
            user_question_list (after (handle_answer uid user_answer s))
              = user_question_list s) \<and>
         (length (get_plan s uid) \<le> get_index s uid + 1 \<longrightarrow>
            user_question_index (after (handle_answer uid user_answer s)) uid = Some 0 \<and>
            user_question_list (after (handle_answer uid user_answer s)) uid = Some [])"
  using assms
  by (auto simp: handle_answer_def check_answer_def advance_def Let_def get_score_def
      get_index_def get_plan_def split: option.splits if_splits)

text \<open>
  The claim as stated fails. After the answer to the only question of a plan the position
  is 0 as before, and the question is still stored; after the answer to the first of two
  questions the position is 1, and the question is still stored.
\<close>

theorem answer_advances_counterexample:
  "map_option fst (current_question (started one_file) 7) = Some 0 \<and>
   returned (handle_answer 7 ''Geralt'' (started one_file)) = Inr END \<and>
   user_question_index (started one_file) 7 = Some 0 \<and>
   user_question_index (after (handle_answer 7 ''Geralt'' (started one_file))) 7 = Some 0 \<and>
   map_option fst (current_question (after (handle_answer 7 ''Geralt'' (started one_file))) 7)
     = Some 0 \<and>
   map_option fst (current_question (started two_file) 7) = Some 1 \<and>
   returned (handle_answer 7 ''Geralt'' (started two_file)) = Inr END \<and>
   user_question_index (after (handle_answer 7 ''Geralt'' (started two_file))) 7 = Some 1 \<and>
   map_option fst (current_question (after (handle_answer 7 ''Geralt'' (started two_file))) 7)
     = Some 1"
  by code_simp

theorem answer_advances_witness:
  "map_option fst (current_question (started two_file) 7) = Some 1 \<and>
   returned (handle_answer 7 ''Geralt'' (started two_file)) = Inr END \<and>
   get_index (started two_file) 7 + 1 < length (get_plan (started two_file) 7) \<and>
   user_question_index (after (handle_answer 7 ''Geralt'' (started two_file))) 7
     = Some (get_index (started two_file) 7 + 1) \<and>
   map_option fst (current_question (started one_file) 7) = Some 0 \<and>
   returned (handle_answer 7 ''Geralt'' (started one_file)) = Inr END \<and>
   length (get_plan (started one_file) 7) \<le> get_index (started one_file) 7 + 1 \<and>
   user_question_index (after (handle_answer 7 ''Geralt'' (started one_file))) 7 = Some 0 \<and>
   user_question_list (after (handle_answer 7 ''Geralt'' (started one_file))) 7 = Some [] \<and>
   current_question (after (handle_answer 7 ''Geralt'' (started one_file)))
     = current_question (started one_file)"
proof -
  have a1: "map_option fst (current_question (started two_file) 7) = Some 1"
    and a2: "returned (handle_answer 7 ''Geralt'' (started two_file)) = Inr END"
    and a3: "get_index (started two_file) 7 + 1 < length (get_plan (started two_file) 7)"
    by code_simp+
  have b1: "map_option fst (current_question (started one_file) 7) = Some 0"
    and b2: "returned (handle_answer 7 ''Geralt'' (started one_file)) = Inr END"
    and b3: "length (get_plan (started one_file) 7) \<le> get_index (started one_file) 7 + 1"
    by code_simp+
  from a1 obtain q2 where q2: "current_question (started two_file) 7 = Some q2" by auto
  from b1 obtain q1 where q1: "current_question (started one_file) 7 = Some q1" by auto
  from answer_advances [OF q2 a2] answer_advances [OF q1 b2] a1 a2 a3 b1 b2 b3
  show ?thesis by simp
qed

end
